theory Spec2Isabelle
  imports Main
begin

unbundle bit_operations_syntax

section \<open>The editor widget: URL hover detection (src/gui/texteditor.cpp)\<close>

subsection \<open>The embedded editing component, as the handler uses it\<close>

text \<open>
  The text buffer, the indicator surface, the regular-expression engine and
  \<open>TextFactory\<close> are collaborators of \<open>TextEditor\<close> whose code is not part of
  \<open>texteditor.cpp\<close>. Offsets are \<open>sptr_t\<close> values; they stay within one position of
  the document's bounds (lemmas \<open>scan_left_bounds\<close>, \<open>scan_right_bounds\<close>), so
  they are modelled as unbounded integers. The document is its sequence of bytes.
\<close>

type_synonym sptr_t = int

text \<open>
  Modelled from the spec: \<open>TextFactory::isCharUrlValid\<close> (its definition is not in
  the sources at hand). URL-safe = ASCII letters, digits, and the fixed set
  \<open>- . _ ~ : / ? # @ ! $ & ' * + , ; = `\<close>.
\<close>

definition url_safe_chars :: string where
  "url_safe_chars =
     ''ABCDEFGHIJKLMNOPQRSTUVWXYZabcdefghijklmnopqrstuvwxyz0123456789''
     @ [CHR ''-'', CHR ''.'', CHR ''_'', CHR ''~'', CHR '':'', CHR ''/'', CHR ''?'',
        CHR ''#'', CHR ''@'', CHR ''!'', CHR ''$'', CHR ''&'', CHR 0x27, CHR ''*'',
        CHR ''+'', CHR '','', CHR '';'', CHR ''='', CHR 0x60]"

definition isCharUrlValid :: "char \<Rightarrow> bool" where
  "isCharUrlValid chr = (chr \<in> set url_safe_chars)"

text \<open>
  Modelled from the spec: \<open>charAt\<close> of the embedded editing component
  (get-char-at(offset)), whose code is not in the sources at hand. The component
  answers every offset: the byte at an offset inside the document, and 0 for an
  offset that is negative or past the end of the document.
\<close>

definition charAt :: "string \<Rightarrow> sptr_t \<Rightarrow> char" where
  "charAt doc pos =
     (if 0 \<le> pos \<and> pos < int (length doc) then doc ! nat pos else CHR 0x00)"

text \<open>
  Modelled from the spec: \<open>textRange\<close> of the embedded editing component
  (get-text-range(start,end)), whose code is not in the sources at hand: the bytes
  of the half-open range, empty when the range is empty or reversed.
\<close>

definition textRange :: "string \<Rightarrow> sptr_t \<Rightarrow> sptr_t \<Rightarrow> string" where
  "textRange doc start endp =
     (if endp \<le> start \<or> start < 0 then []
      else take (nat (endp - start)) (drop (nat start) doc))"

text \<open>
  Modelled from the spec: the visual indicator surface of the embedded editing
  component, whose code is not in the sources at hand. Its two range operations
  take a start offset and a length, as the handler's fill call
  \<open>indicatorFillRange(m_indicatorStart, m_indicatorStop - m_indicatorStart)\<close> passes
  them. The surface is the set of offsets that carry the indicator.
\<close>

definition indicatorFillRange :: "sptr_t \<Rightarrow> sptr_t \<Rightarrow> sptr_t set \<Rightarrow> sptr_t set" where
  "indicatorFillRange start lengthFill surface = surface \<union> {start ..< start + lengthFill}"

definition indicatorClearRange :: "sptr_t \<Rightarrow> sptr_t \<Rightarrow> sptr_t set \<Rightarrow> sptr_t set" where
  "indicatorClearRange start lengthClear surface = surface - {start ..< start + lengthClear}"

subsection \<open>The URL pattern\<close>

text \<open>
  The pattern of \<open>mouseMoveEvent\<close> is
  \<open>(https?:\/\/|ftp:\/\/|mailto:)[A-Za-z0-9\-._~:\/?#@!$&'*+,;=`.]+\<close>, used as a search
  (not a full match) over the extracted word. The engine that runs it is a
  library; what follows is the search for this one pattern. \<open>url_class\<close> is its
  character class, \<open>url_schemes\<close> the strings its group can match.
\<close>

definition url_class :: "char \<Rightarrow> bool" where
  "url_class c = (c \<in> set (''ABCDEFGHIJKLMNOPQRSTUVWXYZ''
                   @ ''abcdefghijklmnopqrstuvwxyz0123456789''
                   @ [CHR ''-'', CHR ''.'', CHR ''_'', CHR ''~'', CHR '':'', CHR ''/'',
                      CHR ''?'', CHR ''#'', CHR ''@'', CHR ''!'', CHR ''$'', CHR ''&'',
                      CHR 0x27, CHR ''*'', CHR ''+'', CHR '','', CHR '';'', CHR ''='',
                      CHR 0x60, CHR ''.'']))"

definition url_schemes :: "string list" where
  "url_schemes = [''https://'', ''http://'', ''ftp://'', ''mailto:'']"

fun starts_with :: "string \<Rightarrow> string \<Rightarrow> bool" where
  "starts_with [] t = True"
| "starts_with (c # cs) [] = False"
| "starts_with (c # cs) (d # ds) = (c = d \<and> starts_with cs ds)"

text \<open>
  A match that begins at the head of the subject: one scheme, then the longest
  non-empty run of class characters (\<open>+\<close> is greedy and nothing follows it).
  The result is the length of the match.
\<close>

definition match_here :: "string \<Rightarrow> nat option" where
  "match_here t =
     (case filter (\<lambda>s. starts_with s t) url_schemes of
        [] \<Rightarrow> None
      | s # _ \<Rightarrow>
          (let n = length (takeWhile url_class (drop (length s) t))
           in if n = 0 then None else Some (length s + n)))"

text \<open>
  The search: the leftmost offset at which a match begins. The result is
  \<open>(capturedStart, capturedEnd)\<close>; \<open>None\<close> is \<open>hasMatch() = false\<close>.
\<close>

fun url_search_from :: "nat \<Rightarrow> string \<Rightarrow> (nat \<times> nat) option" where
  "url_search_from i [] = None"
| "url_search_from i (c # cs) =
     (case match_here (c # cs) of
        Some n \<Rightarrow> Some (i, i + n)
      | None \<Rightarrow> url_search_from (Suc i) cs)"

definition url_search :: "string \<Rightarrow> (nat \<times> nat) option" where
  "url_search t = url_search_from 0 t"

subsection \<open>The widget's state and the calls it makes\<close>

text \<open>
  The widget: the text the editing component holds, the two fields of
  \<open>TextEditor\<close>, and the offsets that carry indicator 0.
\<close>

record TextEditor =
  contents :: string
  m_indicatorStart :: sptr_t
  m_indicatorStop :: sptr_t
  surface :: "sptr_t set"

text \<open>
  Every call the two handlers make on a collaborator, in the order made.
\<close>

datatype call =
    CharAt sptr_t
  | TextRange sptr_t sptr_t
  | RegexMatch string
  | IndicatorClearRange sptr_t sptr_t
  | IndicSetHoverStyle int int
  | SetIndicatorCurrent int
  | IndicatorFillRange sptr_t sptr_t
  | OpenUrlInExternalBrowser string
  | BaseMouseMoveEvent

text \<open>
  Modelled from the spec: the hover style constant of the embedded editing
  component's header, which is not in the sources at hand.
\<close>

definition INDIC_ROUNDBOX :: int where
  "INDIC_ROUNDBOX = 7"

subsection \<open>\<open>TextEditor::mouseMoveEvent\<close>\<close>

text \<open>
  The left loop: \<open>while (true) { chr = charAt(start); if (!isCharUrlValid(chr)) break;
  else start--; }\<close>. The result is the value of \<open>start\<close> at the break together with
  the offsets passed to \<open>charAt\<close>, in order.
\<close>

function scan_left :: "string \<Rightarrow> sptr_t \<Rightarrow> sptr_t \<times> sptr_t list" where
  "scan_left doc start =
     (if \<not> isCharUrlValid (charAt doc start) then (start, [start])
      else (let (s, reads) = scan_left doc (start - 1) in (s, start # reads)))"
  by pat_completeness auto
termination
proof (relation "measure (\<lambda>(doc, start). nat (start + 1))")
  show "wf (measure (\<lambda>(doc, start). nat (start + 1)))" by simp
next
  fix doc :: string and start :: sptr_t
  assume valid: "\<not> \<not> isCharUrlValid (charAt doc start)"
  have "\<not> isCharUrlValid (CHR 0x00)"
    by (simp add: isCharUrlValid_def url_safe_chars_def)
  with valid have "0 \<le> start"
    by (cases "0 \<le> start") (auto simp: charAt_def)
  then show "((doc, start - 1), (doc, start)) \<in> measure (\<lambda>(doc, start). nat (start + 1))"
    by simp
qed

text \<open>
  The right loop: \<open>while (true) { chr = charAt(end); if (!isCharUrlValid(chr)) break;
  else end++; }\<close>.
\<close>

function scan_right :: "string \<Rightarrow> sptr_t \<Rightarrow> sptr_t \<times> sptr_t list" where
  "scan_right doc endp =
     (if \<not> isCharUrlValid (charAt doc endp) then (endp, [endp])
      else (let (e, reads) = scan_right doc (endp + 1) in (e, endp # reads)))"
  by pat_completeness auto
termination
proof (relation "measure (\<lambda>(doc, endp). nat (int (length doc) - endp))")
  show "wf (measure (\<lambda>(doc, endp). nat (int (length doc) - endp)))" by simp
next
  fix doc :: string and endp :: sptr_t
  assume valid: "\<not> \<not> isCharUrlValid (charAt doc endp)"
  have "\<not> isCharUrlValid (CHR 0x00)"
    by (simp add: isCharUrlValid_def url_safe_chars_def)
  with valid have "endp < int (length doc)"
    by (cases "endp < int (length doc)") (auto simp: charAt_def)
  then show "((doc, endp + 1), (doc, endp)) \<in> measure (\<lambda>(doc, endp). nat (int (length doc) - endp))"
    by simp
qed

declare scan_left.simps [simp del] scan_right.simps [simp del]

text \<open>
  The part of the handler under \<open>if (text_pos >= 0)\<close>: both loops, \<open>start++\<close>
  between them, the extraction of the word, the search, and the two ways the
  fields are set. \<open>ed\<close> is the widget after the fields were reset.
\<close>

definition rescan :: "sptr_t \<Rightarrow> TextEditor \<Rightarrow> TextEditor \<times> call list" where
  "rescan text_pos ed =
     (let (start0, reads_left) = scan_left (contents ed) text_pos;
          start = start0 + 1;
          (endp, reads_right) = scan_right (contents ed) text_pos;
          ranged_text = textRange (contents ed) start endp;
          scanned = map CharAt reads_left @ map CharAt reads_right
                    @ [TextRange start endp, RegexMatch ranged_text]
      in case url_search ranged_text of
           Some (capturedStart, capturedEnd) \<Rightarrow>
             (let istart = start + int capturedStart;
                  istop = endp - int (length ranged_text) + int capturedEnd
              in (ed\<lparr>m_indicatorStart := istart, m_indicatorStop := istop,
                      surface := indicatorFillRange istart (istop - istart) (surface ed)\<rparr>,
                  scanned @ [IndicSetHoverStyle 0 INDIC_ROUNDBOX, SetIndicatorCurrent 0,
                             IndicatorFillRange istart (istop - istart)]))
         | None \<Rightarrow>
             (ed\<lparr>m_indicatorStart := start, m_indicatorStop := endp\<rparr>, scanned))"

text \<open>
  Lines 118 and 119: \<open>indicatorClearRange(m_indicatorStart, m_indicatorStop);
  m_indicatorStart = m_indicatorStop = -1;\<close>.
\<close>

definition reset_indicator :: "TextEditor \<Rightarrow> TextEditor" where
  "reset_indicator ed =
     ed\<lparr>surface := indicatorClearRange (m_indicatorStart ed) (m_indicatorStop ed) (surface ed),
        m_indicatorStart := - 1, m_indicatorStop := - 1\<rparr>"

text \<open>
  The handler. \<open>text_pos\<close> is the result of \<open>positionFromPointClose\<close> for the
  event's point, negative when the point is close to no character. The handler
  ends with the base class's \<open>mouseMoveEvent\<close> on every path.
\<close>

definition mouseMoveEvent :: "sptr_t \<Rightarrow> TextEditor \<Rightarrow> TextEditor \<times> call list" where
  "mouseMoveEvent text_pos ed =
     (if text_pos > m_indicatorStart ed \<or> text_pos < m_indicatorStop ed then
        (let clear_call = IndicatorClearRange (m_indicatorStart ed) (m_indicatorStop ed);
             ed1 = reset_indicator ed
         in if text_pos \<ge> 0 then
              (let (ed2, calls) = rescan text_pos ed1
               in (ed2, clear_call # calls @ [BaseMouseMoveEvent]))
            else (ed1, [clear_call, BaseMouseMoveEvent]))
      else (ed, [BaseMouseMoveEvent]))"

text \<open>
  The spec's names for the values of \<open>start\<close> and \<open>end\<close> after the two loops,
  and the calls made from the first loop up to the search.
\<close>

definition wordStart :: "string \<Rightarrow> sptr_t \<Rightarrow> sptr_t" where
  "wordStart doc text_pos = fst (scan_left doc text_pos) + 1"

definition wordEnd :: "string \<Rightarrow> sptr_t \<Rightarrow> sptr_t" where
  "wordEnd doc text_pos = fst (scan_right doc text_pos)"

definition scan_calls :: "string \<Rightarrow> sptr_t \<Rightarrow> call list" where
  "scan_calls doc text_pos =
     map CharAt (snd (scan_left doc text_pos)) @ map CharAt (snd (scan_right doc text_pos))
     @ [TextRange (wordStart doc text_pos) (wordEnd doc text_pos),
        RegexMatch (textRange doc (wordStart doc text_pos) (wordEnd doc text_pos))]"

text \<open>The fill calls, and the calls of the expansion and the search.\<close>

fun is_fill :: "call \<Rightarrow> bool" where
  "is_fill (IndicatorFillRange start lengthFill) = True"
| "is_fill c = False"

fun is_scan :: "call \<Rightarrow> bool" where
  "is_scan (CharAt pos) = True"
| "is_scan (TextRange start endp) = True"
| "is_scan (RegexMatch t) = True"
| "is_scan c = False"

text \<open>
  What holds of the widget between two events: either the fields hold the sentinel
  and no offset carries the indicator, or both fields are offsets and the
  indicator is on no offset or on exactly the stored span.
\<close>

definition hover_inv :: "TextEditor \<Rightarrow> bool" where
  "hover_inv ed =
     (if m_indicatorStart ed = - 1 \<and> m_indicatorStop ed = - 1 then surface ed = {}
      else 0 \<le> m_indicatorStart ed \<and> 0 \<le> m_indicatorStop ed \<and>
           (surface ed = {} \<or>
            surface ed = {m_indicatorStart ed ..< m_indicatorStop ed}))"

subsection \<open>The notification handler of the constructor\<close>

text \<open>
  Modelled from the spec: the constants of the embedded editing component's
  header, which is not in the sources at hand, that the handler compares against:
  the notification code of a click on an indicator, and the modifier bits, of
  which Ctrl is the designated modifier key. \<open>modifiers\<close> is the set of keys
  held, one bit per key.
\<close>

definition SCN_INDICATORCLICK :: int where
  "SCN_INDICATORCLICK = 2023"

definition SCMOD_SHIFT :: int where
  "SCMOD_SHIFT = 1"

definition SCMOD_CTRL :: int where
  "SCMOD_CTRL = 2"

definition SCMOD_ALT :: int where
  "SCMOD_ALT = 4"

record SCNotification =
  code :: int
  modifiers :: int

definition notify :: "TextEditor \<Rightarrow> SCNotification \<Rightarrow> call list" where
  "notify ed pscn =
     (if code pscn = SCN_INDICATORCLICK \<and> modifiers pscn = SCMOD_CTRL then
        [OpenUrlInExternalBrowser
           (textRange (contents ed) (m_indicatorStart ed) (m_indicatorStop ed))]
      else [])"

text \<open>
  Modelled from the spec: the click dispatch of the embedded editing component,
  whose code is not in the sources at hand. A click on an offset that carries an
  indicator is notified as \<open>SCN_INDICATORCLICK\<close> with the modifier state of the
  click; a click elsewhere causes no notification that the handler reacts to.
\<close>

definition click_notifications :: "TextEditor \<Rightarrow> sptr_t \<Rightarrow> int \<Rightarrow> SCNotification list" where
  "click_notifications ed pos mods =
     (if pos \<in> surface ed then [\<lparr>code = SCN_INDICATORCLICK, modifiers = mods\<rparr>] else [])"

definition click :: "TextEditor \<Rightarrow> sptr_t \<Rightarrow> int \<Rightarrow> call list" where
  "click ed pos mods = concat (map (notify ed) (click_notifications ed pos mods))"

text \<open>The designated modifier key is among the keys held.\<close>

definition ctrl_held :: "int \<Rightarrow> bool" where
  "ctrl_held mods = (mods AND SCMOD_CTRL \<noteq> 0)"

subsection \<open>Example widgets\<close>

text \<open>
  The spec's hover example, in three states of the fields: the sentinel, the
  URL's span with the indicator on it, and the pair left by a move over the
  space before the URL. \<open>ed_gap_none\<close> and \<open>ed_gap\<close> are a document with two
  spaces between two words, with the sentinel and with the pair left by a move
  over the first space. \<open>ed_abc\<close> is a document that is one word.
\<close>

definition example_doc :: string where
  "example_doc = ''see https://example.com/path here''"

definition ed_none :: TextEditor where
  "ed_none = \<lparr>contents = example_doc, m_indicatorStart = - 1, m_indicatorStop = - 1,
               surface = {}\<rparr>"

definition ed_url :: TextEditor where
  "ed_url = \<lparr>contents = example_doc, m_indicatorStart = 4, m_indicatorStop = 28,
              surface = {4 ..< 28}\<rparr>"

definition ed_sep :: TextEditor where
  "ed_sep = \<lparr>contents = example_doc, m_indicatorStart = 4, m_indicatorStop = 3,
              surface = {}\<rparr>"

definition ed_gap_none :: TextEditor where
  "ed_gap_none = \<lparr>contents = ''a  b'', m_indicatorStart = - 1, m_indicatorStop = - 1,
                   surface = {}\<rparr>"

definition ed_gap :: TextEditor where
  "ed_gap = \<lparr>contents = ''a  b'', m_indicatorStart = 2, m_indicatorStop = 1, surface = {}\<rparr>"

definition ed_abc :: TextEditor where
  "ed_abc = \<lparr>contents = ''abc'', m_indicatorStart = - 1, m_indicatorStop = - 1, surface = {}\<rparr>"

section \<open>The find-results model (src/gui/sidebars/findresultsmodel.h)\<close>

text \<open>
  The header declares \<open>FindResultsModel\<close>; the bodies of its members are not in
  the sources at hand. The tree has three levels: the root, one group per
  document under the root, one leaf per match under its group.
\<close>

type_synonym 'd MatchLeaf = "'d \<times> int \<times> int"

record 'd DocumentGroup =
  document :: 'd
  leaves :: "'d MatchLeaf list"

type_synonym 'd FindResultsModel = "'d DocumentGroup list"

text \<open>
  Modelled from the spec: \<open>FindResultsModel::clear\<close>, whose body is missing.
  It removes all DocumentGroup/MatchLeaf nodes; Root remains.
\<close>

definition clear :: "'d FindResultsModel \<Rightarrow> 'd FindResultsModel" where
  "clear m_rootItem = []"

text \<open>
  Modelled from the spec: \<open>FindResultsModel::addResults\<close>, whose body is missing.
  For the given document handle: if no DocumentGroup exists for it, create one
  appended to Root's children; then append one MatchLeaf per entry in
  \<open>matches\<close>, in the given order, under that group.
\<close>

definition addResults ::
  "'d \<Rightarrow> (int \<times> int) list \<Rightarrow> 'd FindResultsModel \<Rightarrow> 'd FindResultsModel" where
  "addResults editor results m_rootItem =
     (let with_group =
            (if editor \<in> set (map document m_rootItem) then m_rootItem
             else m_rootItem @ [\<lparr>document = editor, leaves = []\<rparr>])
      in map (\<lambda>g. if document g = editor
                  then g\<lparr>leaves := leaves g @ map (\<lambda>(s, e). (editor, s, e)) results\<rparr>
                  else g) with_group)"

text \<open>A sequence of \<open>addResults\<close> calls on a cleared model.\<close>

definition add_all ::
  "('d \<times> (int \<times> int) list) list \<Rightarrow> 'd FindResultsModel \<Rightarrow> 'd FindResultsModel" where
  "add_all calls m_rootItem =
     foldl (\<lambda>root (editor, results). addResults editor results root) (clear m_rootItem) calls"

text \<open>The leaves the calls of a sequence pass for one document, in call order.\<close>

definition passed_leaves :: "('d \<times> (int \<times> int) list) list \<Rightarrow> 'd \<Rightarrow> 'd MatchLeaf list" where
  "passed_leaves calls editor =
     concat (map (\<lambda>(d, results). map (\<lambda>(s, e). (d, s, e)) results)
                 (filter (\<lambda>c. fst c = editor) calls))"

text \<open>The leaves under the group of one document; none when it has no group.\<close>

definition leaves_of :: "'d FindResultsModel \<Rightarrow> 'd \<Rightarrow> 'd MatchLeaf list" where
  "leaves_of m_rootItem editor =
     concat (map leaves (filter (\<lambda>g. document g = editor) m_rootItem))"

text \<open>
  Modelled from the spec: the tree-position token and
  \<open>FindResultsModel::itemForIndex\<close>, whose body is missing. The token carries a
  row, a column and the node it denotes; it is invalid when the row or the
  column is negative or it denotes nothing. \<open>itemForIndex\<close> resolves a token to
  the node it denotes, or the Root if the token is invalid/null.
\<close>

datatype item = RootItem | GroupItem nat | LeafItem nat nat

record QModelIndex =
  row :: int
  column :: int
  internalPointer :: "item option"

definition isValid :: "QModelIndex \<Rightarrow> bool" where
  "isValid idx = (0 \<le> row idx \<and> 0 \<le> column idx \<and> internalPointer idx \<noteq> None)"

definition itemForIndex :: "QModelIndex \<Rightarrow> item" where
  "itemForIndex idx =
     (if isValid idx then (case internalPointer idx of Some it \<Rightarrow> it | None \<Rightarrow> RootItem)
      else RootItem)"

text \<open>The nodes a tree has: the root, its groups, and their leaves.\<close>

fun item_in_tree :: "'d FindResultsModel \<Rightarrow> item \<Rightarrow> bool" where
  "item_in_tree m_rootItem RootItem = True"
| "item_in_tree m_rootItem (GroupItem i) = (i < length m_rootItem)"
| "item_in_tree m_rootItem (LeafItem i j) =
     (i < length m_rootItem \<and> j < length (leaves (m_rootItem ! i)))"

section \<open>Properties of the hover detection\<close>

subsection \<open>The two loops\<close>

lemma isCharUrlValid_NUL: "\<not> isCharUrlValid (CHR 0x00)"
  by (simp add: isCharUrlValid_def url_safe_chars_def)

lemma isCharUrlValid_charAt_range:
  "isCharUrlValid (charAt doc pos) \<Longrightarrow> 0 \<le> pos \<and> pos < int (length doc)"
  by (cases "0 \<le> pos \<and> pos < int (length doc)") (simp_all add: charAt_def isCharUrlValid_NUL)

lemma scan_left_bounds:
  "scan_left doc p = (s, reads) \<Longrightarrow>
     s \<le> p \<and> (- 1 \<le> p \<longrightarrow> - 1 \<le> s) \<and> \<not> isCharUrlValid (charAt doc s) \<and>
     (\<forall>i. s < i \<and> i \<le> p \<longrightarrow> isCharUrlValid (charAt doc i)) \<and> reads = rev [s..p]"
proof (induction doc p arbitrary: s reads rule: scan_left.induct)
  case (1 doc start)
  show ?case
  proof (cases "isCharUrlValid (charAt doc start)")
    case False
    with "1.prems" show ?thesis by (auto simp add: scan_left.simps)
  next
    case True
    then obtain s' reads' where rec: "scan_left doc (start - 1) = (s', reads')"
      by (cases "scan_left doc (start - 1)") blast
    from True rec "1.prems" have eq: "s = s'" "reads = start # reads'"
      by (simp_all add: scan_left.simps)
    from True have nonneg: "0 \<le> start" using isCharUrlValid_charAt_range by blast
    from "1.IH" [OF _ rec] True
    have ih: "s' \<le> start - 1" "- 1 \<le> s'" "\<not> isCharUrlValid (charAt doc s')"
      "\<forall>i. s' < i \<and> i \<le> start - 1 \<longrightarrow> isCharUrlValid (charAt doc i)"
      "reads' = rev [s'..start - 1]"
      using nonneg by simp_all
    have "[s'..start] = [s'..start - 1] @ [start]"
      using ih(1) by (simp add: upto_rec2)
    then have "reads = rev [s..start]" using eq ih(5) by simp
    moreover have "\<forall>i. s < i \<and> i \<le> start \<longrightarrow> isCharUrlValid (charAt doc i)"
    proof (intro allI impI)
      fix i assume "s < i \<and> i \<le> start"
      then show "isCharUrlValid (charAt doc i)"
        using ih(4) True eq(1) by (cases "i = start") simp_all
    qed
    ultimately show ?thesis using ih eq by simp
  qed
qed


lemma scan_right_bounds:
  "scan_right doc p = (e, reads) \<Longrightarrow>
     p \<le> e \<and> (p \<le> int (length doc) \<longrightarrow> e \<le> int (length doc)) \<and>
     \<not> isCharUrlValid (charAt doc e) \<and>
     (\<forall>i. p \<le> i \<and> i < e \<longrightarrow> isCharUrlValid (charAt doc i)) \<and> reads = [p..e]"
proof (induction doc p arbitrary: e reads rule: scan_right.induct)
  case (1 doc endp)
  show ?case
  proof (cases "isCharUrlValid (charAt doc endp)")
    case False
    with "1.prems" show ?thesis by (auto simp add: scan_right.simps)
  next
    case True
    then obtain e' reads' where rec: "scan_right doc (endp + 1) = (e', reads')"
      by (cases "scan_right doc (endp + 1)") blast
    from True rec "1.prems" have eq: "e = e'" "reads = endp # reads'"
      by (simp_all add: scan_right.simps)
    from True have inside: "endp < int (length doc)" using isCharUrlValid_charAt_range by blast
    from "1.IH" [OF _ rec] True
    have ih: "endp + 1 \<le> e'" "e' \<le> int (length doc)" "\<not> isCharUrlValid (charAt doc e')"
      "\<forall>i. endp + 1 \<le> i \<and> i < e' \<longrightarrow> isCharUrlValid (charAt doc i)"
      "reads' = [endp + 1..e']"
      using inside by simp_all
    have "[endp..e'] = endp # [endp + 1..e']"
      using ih(1) by (simp add: upto_rec1)
    then have "reads = [endp..e]" using eq ih(5) by simp
    moreover have "\<forall>i. endp \<le> i \<and> i < e \<longrightarrow> isCharUrlValid (charAt doc i)"
    proof (intro allI impI)
      fix i assume "endp \<le> i \<and> i < e"
      then show "isCharUrlValid (charAt doc i)"
        using ih(4) True eq(1) by (cases "i = endp") simp_all
    qed
    ultimately show ?thesis using ih eq by simp
  qed
qed


lemma starts_with_length: "starts_with s t \<Longrightarrow> length s \<le> length t"
  by (induction s t rule: starts_with.induct) simp_all

lemma match_here_bounds:
  assumes "match_here t = Some n"
  shows "0 < n \<and> n \<le> length t"
proof -
  from assms obtain s rest where f: "filter (\<lambda>s. starts_with s t) url_schemes = s # rest"
    by (auto simp: match_here_def split: list.splits)
  then have "s \<in> set (filter (\<lambda>s. starts_with s t) url_schemes)" by simp
  then have pre: "starts_with s t" by simp
  define k where "k = length (takeWhile url_class (drop (length s) t))"
  from assms f have n: "k \<noteq> 0" "n = length s + k"
    by (auto simp: match_here_def k_def Let_def split: if_splits)
  have "k \<le> length (drop (length s) t)"
    unfolding k_def by (rule length_takeWhile_le)
  then have "k \<le> length t - length s" by simp
  with starts_with_length [OF pre] n show ?thesis by simp
qed

lemma url_search_from_bounds:
  "url_search_from i t = Some (a, b) \<Longrightarrow> i \<le> a \<and> a < b \<and> b \<le> i + length t"
proof (induction t arbitrary: i)
  case Nil
  then show ?case by simp
next
  case (Cons c cs)
  show ?case
  proof (cases "match_here (c # cs)")
    case None
    with Cons.prems have "url_search_from (Suc i) cs = Some (a, b)" by simp
    from Cons.IH [OF this] show ?thesis by simp
  next
    case (Some n)
    with Cons.prems have "a = i" "b = i + n" by simp_all
    with match_here_bounds [OF Some] show ?thesis by simp
  qed
qed

lemma url_search_bounds:
  "url_search t = Some (a, b) \<Longrightarrow> a < b \<and> b \<le> length t"
  using url_search_from_bounds [of 0 t a b] by (simp add: url_search_def)

lemma word_bounds:
  assumes "0 \<le> p"
  shows "0 \<le> wordStart doc p" and "wordStart doc p \<le> p + 1" and "p \<le> wordEnd doc p"
    and "p \<le> int (length doc) \<Longrightarrow> wordEnd doc p \<le> int (length doc)"
proof -
  obtain s rl where l: "scan_left doc p = (s, rl)" by (cases "scan_left doc p") blast
  obtain e rr where r: "scan_right doc p = (e, rr)" by (cases "scan_right doc p") blast
  from scan_left_bounds [OF l] assms show "0 \<le> wordStart doc p" "wordStart doc p \<le> p + 1"
    by (simp_all add: wordStart_def l)
  from scan_right_bounds [OF r] show "p \<le> wordEnd doc p"
    by (simp add: wordEnd_def r)
  from scan_right_bounds [OF r]
  show "p \<le> int (length doc) \<Longrightarrow> wordEnd doc p \<le> int (length doc)"
    by (simp add: wordEnd_def r)
qed

lemma word_beyond_document:
  assumes "int (length doc) \<le> p"
  shows "wordStart doc p = p + 1" and "wordEnd doc p = p"
proof -
  from assms have "\<not> isCharUrlValid (charAt doc p)"
    by (simp add: charAt_def isCharUrlValid_NUL)
  then show "wordStart doc p = p + 1" "wordEnd doc p = p"
    by (simp_all add: wordStart_def wordEnd_def scan_left.simps scan_right.simps)
qed

lemma length_ranged_text:
  assumes "0 \<le> p"
  shows "int (length (textRange doc (wordStart doc p) (wordEnd doc p)))
           = (if wordStart doc p \<le> wordEnd doc p then wordEnd doc p - wordStart doc p else 0)"
proof (cases "p \<le> int (length doc)")
  case True
  from word_bounds [OF assms, of doc] True
  have "0 \<le> wordStart doc p" "wordEnd doc p \<le> int (length doc)" by simp_all
  then show ?thesis by (auto simp: textRange_def)
next
  case False
  then have "int (length doc) \<le> p" by simp
  from word_beyond_document [OF this] show ?thesis by (simp add: textRange_def)
qed

lemma url_class_isCharUrlValid: "url_class c = isCharUrlValid c"
  by (auto simp: url_class_def isCharUrlValid_def url_safe_chars_def)

lemma rescan_match:
  assumes "0 \<le> p"
    and "url_search (textRange (contents ed) (wordStart (contents ed) p) (wordEnd (contents ed) p))
           = Some (a, b)"
  shows "rescan p ed =
           (ed\<lparr>m_indicatorStart := wordStart (contents ed) p + int a,
               m_indicatorStop := wordStart (contents ed) p + int b,
               surface := surface ed \<union> {wordStart (contents ed) p + int a ..<
                                           wordStart (contents ed) p + int b}\<rparr>,
            scan_calls (contents ed) p
            @ [IndicSetHoverStyle 0 INDIC_ROUNDBOX, SetIndicatorCurrent 0,
               IndicatorFillRange (wordStart (contents ed) p + int a) (int b - int a)])"
proof -
  let ?t = "textRange (contents ed) (wordStart (contents ed) p) (wordEnd (contents ed) p)"
  from url_search_bounds [OF assms(2)] have "0 < length ?t" by linarith
  with length_ranged_text [OF assms(1), of "contents ed"]
  have len: "int (length ?t) = wordEnd (contents ed) p - wordStart (contents ed) p"
    by (simp split: if_splits)
  obtain s rl where l: "scan_left (contents ed) p = (s, rl)"
    by (cases "scan_left (contents ed) p") blast
  obtain e rr where r: "scan_right (contents ed) p = (e, rr)"
    by (cases "scan_right (contents ed) p") blast
  from l r have w: "wordStart (contents ed) p = s + 1" "wordEnd (contents ed) p = e"
    by (simp_all add: wordStart_def wordEnd_def)
  from assms(2) len show ?thesis
    by (simp add: rescan_def l r w scan_calls_def indicatorFillRange_def Let_def)
qed

lemma rescan_no_match:
  assumes "url_search (textRange (contents ed) (wordStart (contents ed) p) (wordEnd (contents ed) p))
           = None"
  shows "rescan p ed =
           (ed\<lparr>m_indicatorStart := wordStart (contents ed) p,
               m_indicatorStop := wordEnd (contents ed) p\<rparr>,
            scan_calls (contents ed) p)"
proof -
  obtain s rl where l: "scan_left (contents ed) p = (s, rl)"
    by (cases "scan_left (contents ed) p") blast
  obtain e rr where r: "scan_right (contents ed) p = (e, rr)"
    by (cases "scan_right (contents ed) p") blast
  from l r have w: "wordStart (contents ed) p = s + 1" "wordEnd (contents ed) p = e"
    by (simp_all add: wordStart_def wordEnd_def)
  from assms show ?thesis
    by (simp add: rescan_def l r w scan_calls_def Let_def)
qed

lemma contents_reset_indicator [simp]: "contents (reset_indicator ed) = contents ed"
  by (simp add: reset_indicator_def)

lemma scan_calls_no_fill: "filter is_fill (scan_calls doc p) = []"
  by (simp add: scan_calls_def filter_empty_conv image_iff)

lemma hover_inv_cleared:
  assumes "hover_inv ed"
  shows "indicatorClearRange (m_indicatorStart ed) (m_indicatorStop ed) (surface ed) = {}"
proof (cases "surface ed = {}")
  case True
  then show ?thesis by (simp add: indicatorClearRange_def)
next
  case False
  with assms have "0 \<le> m_indicatorStart ed"
    and "surface ed = {m_indicatorStart ed ..< m_indicatorStop ed}"
    by (auto simp: hover_inv_def split: if_splits)
  then show ?thesis by (auto simp: indicatorClearRange_def)
qed

subsection \<open>The handler, path by path\<close>

lemma mouseMoveEvent_skip:
  assumes "\<not> (p > m_indicatorStart ed \<or> p < m_indicatorStop ed)"
  shows "mouseMoveEvent p ed = (ed, [BaseMouseMoveEvent])"
  using assms by (simp add: mouseMoveEvent_def)

lemma mouseMoveEvent_off_text:
  assumes "p > m_indicatorStart ed \<or> p < m_indicatorStop ed" and "p < 0"
  shows "mouseMoveEvent p ed =
           (reset_indicator ed,
            [IndicatorClearRange (m_indicatorStart ed) (m_indicatorStop ed), BaseMouseMoveEvent])"
  using assms by (simp add: mouseMoveEvent_def Let_def)

lemma mouseMoveEvent_rescan:
  assumes "p > m_indicatorStart ed \<or> p < m_indicatorStop ed" and "0 \<le> p"
  shows "mouseMoveEvent p ed =
           (fst (rescan p (reset_indicator ed)),
            IndicatorClearRange (m_indicatorStart ed) (m_indicatorStop ed)
            # snd (rescan p (reset_indicator ed)) @ [BaseMouseMoveEvent])"
  using assms by (simp add: mouseMoveEvent_def Let_def split: prod.splits)

lemma surface_reset_indicator:
  "surface (reset_indicator ed)
     = indicatorClearRange (m_indicatorStart ed) (m_indicatorStop ed) (surface ed)"
  by (simp add: reset_indicator_def)

lemma mouseMoveEvent_match:
  assumes "0 \<le> p" and "p > m_indicatorStart ed \<or> p < m_indicatorStop ed"
    and "url_search (textRange (contents ed) (wordStart (contents ed) p) (wordEnd (contents ed) p))
           = Some (a, b)"
  shows "mouseMoveEvent p ed =
           ((reset_indicator ed)\<lparr>m_indicatorStart := wordStart (contents ed) p + int a,
               m_indicatorStop := wordStart (contents ed) p + int b,
               surface := indicatorClearRange (m_indicatorStart ed) (m_indicatorStop ed) (surface ed)
                          \<union> {wordStart (contents ed) p + int a ..<
                              wordStart (contents ed) p + int b}\<rparr>,
            IndicatorClearRange (m_indicatorStart ed) (m_indicatorStop ed)
            # scan_calls (contents ed) p
            @ [IndicSetHoverStyle 0 INDIC_ROUNDBOX, SetIndicatorCurrent 0,
               IndicatorFillRange (wordStart (contents ed) p + int a) (int b - int a),
               BaseMouseMoveEvent])"
proof -
  from assms(3)
  have "url_search (textRange (contents (reset_indicator ed))
           (wordStart (contents (reset_indicator ed)) p)
           (wordEnd (contents (reset_indicator ed)) p)) = Some (a, b)"
    by simp
  from rescan_match [OF assms(1) this] mouseMoveEvent_rescan [OF assms(2) assms(1)]
  show ?thesis by (simp add: surface_reset_indicator)
qed

lemma mouseMoveEvent_no_match:
  assumes "0 \<le> p" and "p > m_indicatorStart ed \<or> p < m_indicatorStop ed"
    and "url_search (textRange (contents ed) (wordStart (contents ed) p) (wordEnd (contents ed) p))
           = None"
  shows "mouseMoveEvent p ed =
           ((reset_indicator ed)\<lparr>m_indicatorStart := wordStart (contents ed) p,
               m_indicatorStop := wordEnd (contents ed) p\<rparr>,
            IndicatorClearRange (m_indicatorStart ed) (m_indicatorStop ed)
            # scan_calls (contents ed) p @ [BaseMouseMoveEvent])"
proof -
  from assms(3)
  have "url_search (textRange (contents (reset_indicator ed))
           (wordStart (contents (reset_indicator ed)) p)
           (wordEnd (contents (reset_indicator ed)) p)) = None"
    by simp
  from rescan_no_match [OF this] mouseMoveEvent_rescan [OF assms(2) assms(1)]
  show ?thesis by simp
qed

text \<open>
  What the handler does once the test of line 114 has passed, at a valid offset
  \<open>p\<close> (the test passes for every offset outside a non-empty stored span, and
  for every valid offset when the fields hold the sentinel: lemma
  \<open>outside_span_enters\<close>). It expands to the word \<open>[wordStart, wordEnd)\<close> and
  searches its text. If the search matches, the fields become \<open>wordStart\<close> plus
  the match's start and end, there is one fill call, over exactly that range, and
  the indicator is on exactly \<open>[activeStart, activeStop)\<close>. If it does not match,
  the fields become \<open>wordStart\<close> and \<open>wordEnd\<close>, there is no fill call, and no
  offset carries the indicator.
\<close>

lemma mouseMove_sets_span:
  assumes "0 \<le> p" and "p > m_indicatorStart ed \<or> p < m_indicatorStop ed"
  shows "case url_search (textRange (contents ed) (wordStart (contents ed) p)
                                    (wordEnd (contents ed) p)) of
           Some (capturedStart, capturedEnd) \<Rightarrow>
             m_indicatorStart (fst (mouseMoveEvent p ed))
               = wordStart (contents ed) p + int capturedStart \<and>
             m_indicatorStop (fst (mouseMoveEvent p ed))
               = wordStart (contents ed) p + int capturedEnd \<and>
             filter is_fill (snd (mouseMoveEvent p ed))
               = [IndicatorFillRange (wordStart (contents ed) p + int capturedStart)
                    (int capturedEnd - int capturedStart)] \<and>
             (hover_inv ed \<longrightarrow>
                surface (fst (mouseMoveEvent p ed))
                  = {m_indicatorStart (fst (mouseMoveEvent p ed)) ..<
                     m_indicatorStop (fst (mouseMoveEvent p ed))})
         | None \<Rightarrow>
             m_indicatorStart (fst (mouseMoveEvent p ed)) = wordStart (contents ed) p \<and>
             m_indicatorStop (fst (mouseMoveEvent p ed)) = wordEnd (contents ed) p \<and>
             filter is_fill (snd (mouseMoveEvent p ed)) = [] \<and>
             (hover_inv ed \<longrightarrow> surface (fst (mouseMoveEvent p ed)) = {})"
proof (cases "url_search (textRange (contents ed) (wordStart (contents ed) p)
                                    (wordEnd (contents ed) p))")
  case None
  from mouseMoveEvent_no_match [OF assms None] hover_inv_cleared [of ed]
  show ?thesis
    by (simp add: None scan_calls_no_fill reset_indicator_def)
next
  case (Some m)
  obtain a b where m: "m = (a, b)" by (cases m)
  from mouseMoveEvent_match [OF assms Some [unfolded m]] hover_inv_cleared [of ed]
  show ?thesis
    by (simp add: Some m scan_calls_no_fill reset_indicator_def)
qed

lemma example_word_url:
  "wordStart example_doc 10 = 4" "wordEnd example_doc 10 = 28"
  "textRange example_doc 4 28 = ''https://example.com/path''"
  "url_search ''https://example.com/path'' = Some (0, 24)"
  by code_simp+

lemma example_word_plain:
  "wordStart example_doc 1 = 0" "wordEnd example_doc 1 = 3"
  "textRange example_doc 0 3 = ''see''"
  "url_search ''see'' = None"
  by code_simp+

lemma example_scan_calls:
  "scan_calls example_doc 10 =
     [CharAt 10, CharAt 9, CharAt 8, CharAt 7, CharAt 6, CharAt 5, CharAt 4, CharAt 3,
      CharAt 10, CharAt 11, CharAt 12, CharAt 13, CharAt 14, CharAt 15, CharAt 16,
      CharAt 17, CharAt 18, CharAt 19, CharAt 20, CharAt 21, CharAt 22, CharAt 23,
      CharAt 24, CharAt 25, CharAt 26, CharAt 27, CharAt 28,
      TextRange 4 28, RegexMatch ''https://example.com/path'']"
  by code_simp

text \<open>
  On the spec's example, from the sentinel: a move to offset 10, inside the
  URL, and a move to offset 1, inside the plain word \<open>see\<close>.
\<close>

lemma mouseMove_sets_span_witness:
  "m_indicatorStart (fst (mouseMoveEvent 10 ed_none)) = 4 \<and>
   m_indicatorStop (fst (mouseMoveEvent 10 ed_none)) = 28 \<and>
   filter is_fill (snd (mouseMoveEvent 10 ed_none)) = [IndicatorFillRange 4 24] \<and>
   surface (fst (mouseMoveEvent 10 ed_none)) = {4 ..< 28} \<and>
   m_indicatorStart (fst (mouseMoveEvent 1 ed_none)) = 0 \<and>
   m_indicatorStop (fst (mouseMoveEvent 1 ed_none)) = 3 \<and>
   filter is_fill (snd (mouseMoveEvent 1 ed_none)) = [] \<and>
   surface (fst (mouseMoveEvent 1 ed_none)) = {}"
proof -
  have inv: "hover_inv ed_none" by (simp add: hover_inv_def ed_none_def)
  have c: "contents ed_none = example_doc" by (simp add: ed_none_def)
  have g10: "10 > m_indicatorStart ed_none \<or> 10 < m_indicatorStop ed_none"
    by (simp add: ed_none_def)
  have g1: "1 > m_indicatorStart ed_none \<or> 1 < m_indicatorStop ed_none"
    by (simp add: ed_none_def)
  from mouseMove_sets_span [OF _ g10] inv
  have "m_indicatorStart (fst (mouseMoveEvent 10 ed_none)) = 4 \<and>
   m_indicatorStop (fst (mouseMoveEvent 10 ed_none)) = 28 \<and>
   filter is_fill (snd (mouseMoveEvent 10 ed_none)) = [IndicatorFillRange 4 24] \<and>
   surface (fst (mouseMoveEvent 10 ed_none)) = {4 ..< 28}"
    by (simp add: c example_word_url)
  moreover from mouseMove_sets_span [OF _ g1] inv
  have "m_indicatorStart (fst (mouseMoveEvent 1 ed_none)) = 0 \<and>
   m_indicatorStop (fst (mouseMoveEvent 1 ed_none)) = 3 \<and>
   filter is_fill (snd (mouseMoveEvent 1 ed_none)) = [] \<and>
   surface (fst (mouseMoveEvent 1 ed_none)) = {}"
    by (simp add: c example_word_plain)
  ultimately show ?thesis by simp
qed

lemma word_on_separator:
  assumes "\<not> isCharUrlValid (charAt doc p)"
  shows "wordStart doc p = p + 1" and "wordEnd doc p = p"
    and "scan_calls doc p = [CharAt p, CharAt p, TextRange (p + 1) p, RegexMatch []]"
  using assms
  by (simp_all add: wordStart_def wordEnd_def scan_calls_def scan_left.simps scan_right.simps
        textRange_def)

lemma url_search_empty: "url_search [] = None"
  by (simp add: url_search_def)

text \<open>
  Once the test of line 114 has passed, at a valid offset \<open>p\<close> whose character is
  not URL-safe: both loops stop at once, so \<open>wordStart = p + 1\<close> and
  \<open>wordEnd = p\<close>, the word is empty, the fields are stored as \<open>p + 1\<close> and \<open>p\<close>,
  for which \<open>activeStart \<le> activeStop\<close> does not hold, and no indicator is
  applied.
\<close>

lemma mouseMove_on_separator:
  assumes "0 \<le> p" and "p > m_indicatorStart ed \<or> p < m_indicatorStop ed"
    and "\<not> isCharUrlValid (charAt (contents ed) p)"
  shows "wordStart (contents ed) p = p + 1 \<and> wordEnd (contents ed) p = p \<and>
         textRange (contents ed) (wordStart (contents ed) p) (wordEnd (contents ed) p) = [] \<and>
         m_indicatorStart (fst (mouseMoveEvent p ed)) = p + 1 \<and>
         m_indicatorStop (fst (mouseMoveEvent p ed)) = p \<and>
         \<not> m_indicatorStart (fst (mouseMoveEvent p ed)) \<le> m_indicatorStop (fst (mouseMoveEvent p ed)) \<and>
         filter is_fill (snd (mouseMoveEvent p ed)) = [] \<and>
         surface (fst (mouseMoveEvent p ed)) \<subseteq> surface ed \<and>
         (hover_inv ed \<longrightarrow> surface (fst (mouseMoveEvent p ed)) = {})"
proof -
  note w = word_on_separator [OF assms(3)]
  have t: "textRange (contents ed) (wordStart (contents ed) p) (wordEnd (contents ed) p) = []"
    by (simp add: w textRange_def)
  then have "url_search (textRange (contents ed) (wordStart (contents ed) p)
                                   (wordEnd (contents ed) p)) = None"
    by (simp add: url_search_empty)
  from mouseMoveEvent_no_match [OF assms(1,2) this] hover_inv_cleared [of ed] t
  show ?thesis
    by (auto simp add: w reset_indicator_def indicatorClearRange_def)
qed

text \<open>
  On the spec's example: offset 3 is the space before the URL.
\<close>

lemma mouseMove_on_separator_witness:
  "\<not> isCharUrlValid (charAt (contents ed_none) 3) \<and>
   m_indicatorStart (fst (mouseMoveEvent 3 ed_none)) = 4 \<and>
   m_indicatorStop (fst (mouseMoveEvent 3 ed_none)) = 3 \<and>
   filter is_fill (snd (mouseMoveEvent 3 ed_none)) = [] \<and>
   surface (fst (mouseMoveEvent 3 ed_none)) = {}"
proof -
  have sep: "\<not> isCharUrlValid (charAt (contents ed_none) 3)"
    by (simp add: ed_none_def example_doc_def charAt_def isCharUrlValid_def url_safe_chars_def)
  have g: "3 > m_indicatorStart ed_none \<or> 3 < m_indicatorStop ed_none"
    by (simp add: ed_none_def)
  have inv: "hover_inv ed_none" by (simp add: hover_inv_def ed_none_def)
  from mouseMove_on_separator [OF _ g sep] inv sep show ?thesis by simp
qed

subsection \<open>The cursor off the text\<close>

text \<open>
  Claim C6. A mouse-move whose position resolves to no character (a negative
  offset), in a state that satisfies \<open>hover_inv\<close>: afterwards the fields hold the
  sentinel and no offset carries the indicator; the handler calls neither
  \<open>charAt\<close> nor \<open>textRange\<close> nor the search, and makes no fill call. Its only
  calls are the clear call, when the test at line 114 holds, and the base class's
  handler. When the test fails the fields already hold the sentinel.
\<close>

theorem mouseMove_off_text_clears:
  assumes "p < 0" and "hover_inv ed"
  shows "fst (mouseMoveEvent p ed)
           = ed\<lparr>m_indicatorStart := - 1, m_indicatorStop := - 1, surface := {}\<rparr> \<and>
         filter is_scan (snd (mouseMoveEvent p ed)) = [] \<and>
         filter is_fill (snd (mouseMoveEvent p ed)) = [] \<and>
         snd (mouseMoveEvent p ed)
           = (if p > m_indicatorStart ed \<or> p < m_indicatorStop ed
              then [IndicatorClearRange (m_indicatorStart ed) (m_indicatorStop ed),
                    BaseMouseMoveEvent]
              else [BaseMouseMoveEvent])"
proof (cases "p > m_indicatorStart ed \<or> p < m_indicatorStop ed")
  case True
  from mouseMoveEvent_off_text [OF True assms(1)] hover_inv_cleared [OF assms(2)] True
  show ?thesis by (simp add: reset_indicator_def)
next
  case False
  with assms(1) have neg: "m_indicatorStop ed < 0" by simp
  with assms(2) have "m_indicatorStart ed = - 1 \<and> m_indicatorStop ed = - 1 \<and> surface ed = {}"
    by (auto simp: hover_inv_def split: if_splits)
  then have "ed\<lparr>m_indicatorStart := - 1, m_indicatorStop := - 1, surface := {}\<rparr> = ed"
    by simp
  with mouseMoveEvent_skip [OF False] False show ?thesis by simp
qed

text \<open>
  C6 on the spec's example, with the URL highlighted and from the sentinel.
\<close>

theorem mouseMove_off_text_clears_witness:
  "fst (mouseMoveEvent (- 1) ed_url) = ed_none \<and>
   snd (mouseMoveEvent (- 1) ed_url) = [IndicatorClearRange 4 28, BaseMouseMoveEvent] \<and>
   fst (mouseMoveEvent (- 1) ed_none) = ed_none \<and>
   snd (mouseMoveEvent (- 1) ed_none) = [BaseMouseMoveEvent]"
proof -
  have inv: "hover_inv ed_url" "hover_inv ed_none"
    by (simp_all add: hover_inv_def ed_url_def ed_none_def)
  have neg: "(- 1 :: int) < 0" by simp
  from mouseMove_off_text_clears [OF neg inv(1)] mouseMove_off_text_clears [OF neg inv(2)]
  show ?thesis by (simp add: ed_url_def ed_none_def)
qed

subsection \<open>The invariant\<close>

text \<open>
  The handler keeps \<open>hover_inv\<close>, whatever the offset.
\<close>

lemma hover_inv_mouseMoveEvent:
  assumes "hover_inv ed"
  shows "hover_inv (fst (mouseMoveEvent p ed))"
proof (cases "p > m_indicatorStart ed \<or> p < m_indicatorStop ed")
  case False
  from mouseMoveEvent_skip [OF False] assms show ?thesis by simp
next
  case guard: True
  note cleared = hover_inv_cleared [OF assms]
  show ?thesis
  proof (cases "0 \<le> p")
    case False
    then have "p < 0" by simp
    from mouseMoveEvent_off_text [OF guard this] cleared show ?thesis
      by (simp add: hover_inv_def reset_indicator_def)
  next
    case True
    note b = word_bounds [OF True, of "contents ed"]
    show ?thesis
    proof (cases "url_search (textRange (contents ed) (wordStart (contents ed) p)
                                        (wordEnd (contents ed) p))")
      case None
      from mouseMoveEvent_no_match [OF True guard None] cleared b(1) b(3) True
      show ?thesis by (simp add: hover_inv_def reset_indicator_def)
    next
      case (Some m)
      obtain a b' where m: "m = (a, b')" by (cases m)
      from mouseMoveEvent_match [OF True guard Some [unfolded m]] cleared b(1)
      show ?thesis by (simp add: hover_inv_def reset_indicator_def)
    qed
  qed
qed

subsection \<open>The bounds of the expansion\<close>

lemma example_abc:
  "wordStart ''abc'' 0 = 0" "wordEnd ''abc'' 0 = 3"
  "textRange ''abc'' 0 3 = ''abc''" "url_search ''abc'' = None"
  "scan_calls ''abc'' 0 =
     [CharAt 0, CharAt (- 1), CharAt 0, CharAt 1, CharAt 2, CharAt 3,
      TextRange 0 3, RegexMatch ''abc'']"
  by code_simp+

text \<open>
  Claim C3, as stated, fails: the loops have no boundary test of their own. On
  the document \<open>abc\<close> of length 3, a move to offset 0 passes \<open>- 1\<close> and \<open>3\<close> to
  \<open>charAt\<close>, both outside \<open>[0, 3)\<close>.
\<close>

theorem expansion_reads_outside_document:
  "snd (mouseMoveEvent 0 ed_abc) =
     [IndicatorClearRange (- 1) (- 1),
      CharAt 0, CharAt (- 1), CharAt 0, CharAt 1, CharAt 2, CharAt 3,
      TextRange 0 3, RegexMatch ''abc'', BaseMouseMoveEvent] \<and>
   length (contents ed_abc) = 3 \<and>
   CharAt (- 1) \<in> set (snd (mouseMoveEvent 0 ed_abc)) \<and>
   CharAt 3 \<in> set (snd (mouseMoveEvent 0 ed_abc))"
proof -
  have g: "0 > m_indicatorStart ed_abc \<or> 0 < m_indicatorStop ed_abc"
    by (simp add: ed_abc_def)
  have c: "contents ed_abc = ''abc''" by (simp add: ed_abc_def)
  have "url_search (textRange (contents ed_abc) (wordStart (contents ed_abc) 0)
                              (wordEnd (contents ed_abc) 0)) = None"
    by (simp add: c example_abc)
  from mouseMoveEvent_no_match [OF _ g this] show ?thesis
    by (simp add: c example_abc ed_abc_def)
qed

text \<open>
  Claim C3, amended. For every offset \<open>0 \<le> p \<le> length\<close> both loops terminate
  (\<open>scan_left\<close> and \<open>scan_right\<close> are total), \<open>wordStart\<close> is not below 0 and
  \<open>wordEnd\<close> does not exceed the document's length. The offsets passed to
  \<open>charAt\<close> are the run from \<open>p\<close> down to \<open>wordStart - 1\<close> and the run from \<open>p\<close> up to
  \<open>wordEnd\<close>; they lie in \<open>[- 1, length]\<close>, and at \<open>- 1\<close> and at \<open>length\<close> the
  component answers 0, which is not URL-safe and ends the loop. Every character
  of the word is URL-safe and the two characters around it are not.
\<close>

theorem expansion_bounded:
  assumes "0 \<le> p" and "p \<le> int (length doc)"
  shows "0 \<le> wordStart doc p \<and> wordStart doc p \<le> p + 1 \<and>
         p \<le> wordEnd doc p \<and> wordEnd doc p \<le> int (length doc) \<and>
         snd (scan_left doc p) = rev [wordStart doc p - 1 .. p] \<and>
         snd (scan_right doc p) = [p .. wordEnd doc p] \<and>
         (\<forall>i \<in> set (snd (scan_left doc p)) \<union> set (snd (scan_right doc p)).
             - 1 \<le> i \<and> i \<le> int (length doc) \<and>
             (i < 0 \<or> int (length doc) \<le> i \<longrightarrow> charAt doc i = CHR 0x00)) \<and>
         (\<forall>i. wordStart doc p \<le> i \<and> i < wordEnd doc p \<longrightarrow> isCharUrlValid (charAt doc i)) \<and>
         \<not> isCharUrlValid (charAt doc (wordStart doc p - 1)) \<and>
         \<not> isCharUrlValid (charAt doc (wordEnd doc p))"
proof -
  obtain s rl where l: "scan_left doc p = (s, rl)" by (cases "scan_left doc p") blast
  obtain e rr where r: "scan_right doc p = (e, rr)" by (cases "scan_right doc p") blast
  note L = scan_left_bounds [OF l] and R = scan_right_bounds [OF r]
  have w: "wordStart doc p = s + 1" "wordEnd doc p = e"
    by (simp_all add: wordStart_def wordEnd_def l r)
  have reads: "snd (scan_left doc p) = rev [s .. p]" "snd (scan_right doc p) = [p .. e]"
    using L R by (simp_all add: l r)
  have lo: "- 1 \<le> s" and hi: "e \<le> int (length doc)" using L R assms by simp_all
  have inner: "\<forall>i. s + 1 \<le> i \<and> i < e \<longrightarrow> isCharUrlValid (charAt doc i)"
  proof (intro allI impI)
    fix i assume i: "s + 1 \<le> i \<and> i < e"
    show "isCharUrlValid (charAt doc i)"
    proof (cases "i \<le> p")
      case True with i L show ?thesis by simp
    next
      case False with i R show ?thesis by simp
    qed
  qed
  have range: "\<forall>i \<in> set (snd (scan_left doc p)) \<union> set (snd (scan_right doc p)).
             - 1 \<le> i \<and> i \<le> int (length doc) \<and>
             (i < 0 \<or> int (length doc) \<le> i \<longrightarrow> charAt doc i = CHR 0x00)"
    using lo hi assms L R by (auto simp: reads charAt_def)
  have b: "0 \<le> s + 1" "s + 1 \<le> p + 1" "p \<le> e" using lo L R by simp_all
  have stop: "\<not> isCharUrlValid (charAt doc s)" "\<not> isCharUrlValid (charAt doc e)"
    using L R by simp_all
  have 1: "0 \<le> wordStart doc p \<and> wordStart doc p \<le> p + 1 \<and>
         p \<le> wordEnd doc p \<and> wordEnd doc p \<le> int (length doc)"
    using b hi by (simp add: w)
  have 2: "snd (scan_left doc p) = rev [wordStart doc p - 1 .. p] \<and>
         snd (scan_right doc p) = [p .. wordEnd doc p]"
    by (simp add: w reads)
  have 3: "\<forall>i. wordStart doc p \<le> i \<and> i < wordEnd doc p \<longrightarrow> isCharUrlValid (charAt doc i)"
    using inner by (simp add: w)
  have 4: "\<not> isCharUrlValid (charAt doc (wordStart doc p - 1)) \<and>
         \<not> isCharUrlValid (charAt doc (wordEnd doc p))"
    using stop by (simp add: w)
  from 1 2 range 3 4 show ?thesis by blast
qed

text \<open>
  C3 amended, on the one-word document at its first and at its last character.
\<close>

theorem expansion_bounded_witness:
  "wordStart ''abc'' 0 = 0 \<and> wordEnd ''abc'' 0 = 3 \<and>
   snd (scan_left ''abc'' 0) = [0, - 1] \<and> snd (scan_right ''abc'' 0) = [0, 1, 2, 3] \<and>
   wordStart ''abc'' 2 = 0 \<and> wordEnd ''abc'' 2 = 3 \<and>
   snd (scan_left ''abc'' 2) = [2, 1, 0, - 1] \<and> snd (scan_right ''abc'' 2) = [2, 3]"
proof -
  have len: "(0::int) \<le> int (length ''abc'')" "(2::int) \<le> int (length ''abc'')" by simp_all
  have w: "wordStart ''abc'' 0 = 0" "wordEnd ''abc'' 0 = 3"
    "wordStart ''abc'' 2 = 0" "wordEnd ''abc'' 2 = 3"
    by code_simp+
  have u: "rev [- 1 .. 0::int] = [0, - 1]" "[0 .. 3::int] = [0, 1, 2, 3]"
    "rev [- 1 .. 2::int] = [2, 1, 0, - 1]" "[2 .. 3::int] = [2, 3]"
    by code_simp+
  from expansion_bounded [OF _ len(1)] expansion_bounded [OF _ len(2)]
  show ?thesis by (simp add: w u)
qed

subsection \<open>The guard of the handler\<close>

text \<open>
  The clear call of line 118 passes \<open>m_indicatorStop\<close> where the component takes a
  length: it clears \<open>[m_indicatorStart, m_indicatorStart + m_indicatorStop)\<close>.
\<close>

lemma reset_indicator_surface:
  "surface (reset_indicator ed)
     = surface ed - {m_indicatorStart ed ..< m_indicatorStart ed + m_indicatorStop ed}"
  by (simp add: reset_indicator_def indicatorClearRange_def)

text \<open>
  The test of line 114 holds for every offset outside a non-empty stored span,
  and for every valid offset when the fields hold the sentinel.
\<close>

lemma outside_span_enters:
  assumes "m_indicatorStart ed < m_indicatorStop ed \<or>
           (m_indicatorStart ed = - 1 \<and> m_indicatorStop ed = - 1 \<and> 0 \<le> p)"
    and "\<not> (m_indicatorStart ed \<le> p \<and> p < m_indicatorStop ed)"
  shows "p > m_indicatorStart ed \<or> p < m_indicatorStop ed"
  using assms by auto

text \<open>
  Claim C1 is not met by the code. The claim: a mouse-move whose offset lies
  within the active span does nothing. The handler's comment at line 115 says
  the branch is for a position outside of the previous matched URL, but its test
  \<open>text_pos > m_indicatorStart || text_pos < m_indicatorStop\<close> holds for every
  offset inside a non-empty span. On the spec's example with the URL highlighted
  (the state a move to offset 10 leaves from the sentinel), a second move to
  offset 10 clears the indicator range, reads 27 characters in the two loops,
  extracts the word, runs the search and fills the indicator again; the fields
  and the indicator end as they were.
\<close>

theorem mouseMove_inside_span_rescans:
  "fst (mouseMoveEvent 10 ed_none) = ed_url \<and>
   m_indicatorStart ed_url \<le> 10 \<and> 10 < m_indicatorStop ed_url \<and>
   surface ed_url = {m_indicatorStart ed_url ..< m_indicatorStop ed_url} \<and>
   mouseMoveEvent 10 ed_url =
     (ed_url,
      [IndicatorClearRange 4 28,
       CharAt 10, CharAt 9, CharAt 8, CharAt 7, CharAt 6, CharAt 5, CharAt 4, CharAt 3,
       CharAt 10, CharAt 11, CharAt 12, CharAt 13, CharAt 14, CharAt 15, CharAt 16,
       CharAt 17, CharAt 18, CharAt 19, CharAt 20, CharAt 21, CharAt 22, CharAt 23,
       CharAt 24, CharAt 25, CharAt 26, CharAt 27, CharAt 28,
       TextRange 4 28, RegexMatch ''https://example.com/path'',
       IndicSetHoverStyle 0 INDIC_ROUNDBOX, SetIndicatorCurrent 0, IndicatorFillRange 4 24,
       BaseMouseMoveEvent])"
proof -
  have g: "10 > m_indicatorStart ed_url \<or> 10 < m_indicatorStop ed_url"
    by (simp add: ed_url_def)
  have c: "contents ed_url = example_doc" by (simp add: ed_url_def)
  have "url_search (textRange (contents ed_url) (wordStart (contents ed_url) 10)
                              (wordEnd (contents ed_url) 10)) = Some (0, 24)"
    by (simp add: c example_word_url)
  from mouseMoveEvent_match [OF _ g this]
  have 1: "mouseMoveEvent 10 ed_url =
     (ed_url,
      [IndicatorClearRange 4 28,
       CharAt 10, CharAt 9, CharAt 8, CharAt 7, CharAt 6, CharAt 5, CharAt 4, CharAt 3,
       CharAt 10, CharAt 11, CharAt 12, CharAt 13, CharAt 14, CharAt 15, CharAt 16,
       CharAt 17, CharAt 18, CharAt 19, CharAt 20, CharAt 21, CharAt 22, CharAt 23,
       CharAt 24, CharAt 25, CharAt 26, CharAt 27, CharAt 28,
       TextRange 4 28, RegexMatch ''https://example.com/path'',
       IndicSetHoverStyle 0 INDIC_ROUNDBOX, SetIndicatorCurrent 0, IndicatorFillRange 4 24,
       BaseMouseMoveEvent])"
    by (simp add: c example_word_url example_scan_calls)
       (simp add: ed_url_def reset_indicator_def indicatorClearRange_def)
  have g0: "10 > m_indicatorStart ed_none \<or> 10 < m_indicatorStop ed_none"
    by (simp add: ed_none_def)
  have c0: "contents ed_none = example_doc" by (simp add: ed_none_def)
  have "url_search (textRange (contents ed_none) (wordStart (contents ed_none) 10)
                              (wordEnd (contents ed_none) 10)) = Some (0, 24)"
    by (simp add: c0 example_word_url)
  from mouseMoveEvent_match [OF _ g0 this]
  have 2: "fst (mouseMoveEvent 10 ed_none) = ed_url"
    by (simp add: c0 example_word_url)
       (simp add: ed_none_def ed_url_def reset_indicator_def indicatorClearRange_def)
  from 1 2 show ?thesis by (simp add: ed_url_def)
qed

lemma example_word_after_separator:
  "wordStart example_doc 3 = 4" "wordEnd example_doc 3 = 3"
  "textRange example_doc 4 3 = []"
  "scan_calls example_doc 3 = [CharAt 3, CharAt 3, TextRange 4 3, RegexMatch []]"
  "wordStart example_doc 4 = 4" "wordEnd example_doc 4 = 28"
  "isCharUrlValid (charAt example_doc 4)"
  by code_simp+

text \<open>
  Claim C5 is not met by the code. The claim: for every mouse-move whose offset
  lies outside the active span, the handler first clears the old span and resets
  the fields to the sentinel, before any rescan. On the spec's example, a move
  from the sentinel to offset 3, the space before the URL, stores the pair
  \<open>(4, 3)\<close>. Offset 4, the first character of the URL, is outside \<open>[4, 3)\<close>, but
  the test of line 114 fails for it: the handler makes no clear call, leaves the
  fields as they are and does not rescan, so the URL under the cursor is not
  highlighted. From the sentinel the same move highlights it.
\<close>

theorem mouseMove_after_separator_skipped:
  "mouseMoveEvent 3 ed_none =
     (ed_sep, [IndicatorClearRange (- 1) (- 1), CharAt 3, CharAt 3, TextRange 4 3,
               RegexMatch [], BaseMouseMoveEvent]) \<and>
   \<not> (m_indicatorStart ed_sep \<le> 4 \<and> 4 < m_indicatorStop ed_sep) \<and>
   mouseMoveEvent 4 ed_sep = (ed_sep, [BaseMouseMoveEvent]) \<and>
   isCharUrlValid (charAt (contents ed_sep) 4) \<and>
   fst (mouseMoveEvent 4 ed_none) = ed_url"
proof -
  have c: "contents ed_none = example_doc" by (simp add: ed_none_def)
  have g3: "3 > m_indicatorStart ed_none \<or> 3 < m_indicatorStop ed_none"
    and g4: "4 > m_indicatorStart ed_none \<or> 4 < m_indicatorStop ed_none"
    by (simp_all add: ed_none_def)
  have "url_search (textRange (contents ed_none) (wordStart (contents ed_none) 3)
                              (wordEnd (contents ed_none) 3)) = None"
    by (simp add: c example_word_after_separator url_search_empty)
  from mouseMoveEvent_no_match [OF _ g3 this]
  have 1: "mouseMoveEvent 3 ed_none =
     (ed_sep, [IndicatorClearRange (- 1) (- 1), CharAt 3, CharAt 3, TextRange 4 3,
               RegexMatch [], BaseMouseMoveEvent])"
    by (simp add: c example_word_after_separator)
       (simp add: ed_none_def ed_sep_def reset_indicator_def indicatorClearRange_def)
  have "\<not> (4 > m_indicatorStart ed_sep \<or> 4 < m_indicatorStop ed_sep)"
    by (simp add: ed_sep_def)
  from mouseMoveEvent_skip [OF this]
  have 2: "mouseMoveEvent 4 ed_sep = (ed_sep, [BaseMouseMoveEvent])" .
  have "url_search (textRange (contents ed_none) (wordStart (contents ed_none) 4)
                              (wordEnd (contents ed_none) 4)) = Some (0, 24)"
    by (simp add: c example_word_after_separator example_word_url)
  from mouseMoveEvent_match [OF _ g4 this]
  have 3: "fst (mouseMoveEvent 4 ed_none) = ed_url"
    by (simp add: c example_word_after_separator)
       (simp add: ed_none_def ed_url_def reset_indicator_def indicatorClearRange_def)
  have 4: "\<not> (m_indicatorStart ed_sep \<le> 4 \<and> 4 < m_indicatorStop ed_sep)"
    by (simp add: ed_sep_def)
  have 5: "isCharUrlValid (charAt (contents ed_sep) 4)"
    by (simp add: ed_sep_def example_word_after_separator)
  from 1 2 3 4 5 show ?thesis by simp
qed

text \<open>
  Claim C2 is not met by the code. The claim: for every mouse-move at a valid
  offset outside the active span, if the search over the word matches, the fields
  are set to \<open>wordStart\<close> plus the match's bounds and the indicator is applied
  over exactly that range. On the spec's example with the pair \<open>(4, 3)\<close> stored
  (left by a move from the sentinel to offset 3), offset 4 is valid and outside
  \<open>[4, 3)\<close>, the word around it is \<open>[4, 28)\<close> and the search matches all of it. The
  claim asks for the fields 4 and 28 and the indicator on \<open>[4, 28)\<close>; the test of
  line 114 fails, so the fields stay 4 and 3, there is no fill call and no
  offset carries the indicator.
\<close>

theorem mouseMove_match_not_stored:
  "fst (mouseMoveEvent 3 ed_none) = ed_sep \<and>
   0 \<le> (4::int) \<and>
   \<not> (m_indicatorStart ed_sep \<le> 4 \<and> 4 < m_indicatorStop ed_sep) \<and>
   wordStart (contents ed_sep) 4 = 4 \<and> wordEnd (contents ed_sep) 4 = 28 \<and>
   url_search (textRange (contents ed_sep) (wordStart (contents ed_sep) 4)
                         (wordEnd (contents ed_sep) 4)) = Some (0, 24) \<and>
   m_indicatorStart (fst (mouseMoveEvent 4 ed_sep)) = 4 \<and>
   m_indicatorStop (fst (mouseMoveEvent 4 ed_sep)) = 3 \<and>
   m_indicatorStop (fst (mouseMoveEvent 4 ed_sep)) \<noteq> wordStart (contents ed_sep) 4 + 24 \<and>
   filter is_fill (snd (mouseMoveEvent 4 ed_sep)) = [] \<and>
   surface (fst (mouseMoveEvent 4 ed_sep)) = {}"
proof -
  have c: "contents ed_none = example_doc" "contents ed_sep = example_doc"
    by (simp_all add: ed_none_def ed_sep_def)
  have g3: "3 > m_indicatorStart ed_none \<or> 3 < m_indicatorStop ed_none"
    by (simp add: ed_none_def)
  have "url_search (textRange (contents ed_none) (wordStart (contents ed_none) 3)
                              (wordEnd (contents ed_none) 3)) = None"
    by (simp add: c example_word_after_separator url_search_empty)
  from mouseMoveEvent_no_match [OF _ g3 this]
  have 1: "fst (mouseMoveEvent 3 ed_none) = ed_sep"
    by (simp add: c example_word_after_separator)
       (simp add: ed_none_def ed_sep_def reset_indicator_def indicatorClearRange_def)
  have "\<not> (4 > m_indicatorStart ed_sep \<or> 4 < m_indicatorStop ed_sep)"
    by (simp add: ed_sep_def)
  from mouseMoveEvent_skip [OF this]
  have 2: "mouseMoveEvent 4 ed_sep = (ed_sep, [BaseMouseMoveEvent])" .
  have 3: "wordStart (contents ed_sep) 4 = 4" "wordEnd (contents ed_sep) 4 = 28"
    "url_search (textRange (contents ed_sep) (wordStart (contents ed_sep) 4)
                           (wordEnd (contents ed_sep) 4)) = Some (0, 24)"
    by (simp_all add: c example_word_after_separator example_word_url)
  have 4: "m_indicatorStart ed_sep = 4" "m_indicatorStop ed_sep = 3" "surface ed_sep = {}"
    by (simp_all add: ed_sep_def)
  from 1 2 3 4 show ?thesis by simp
qed

text \<open>
  Claim C9 is not met by the code. The claim: for every mouse-move at a valid
  offset \<open>p\<close> outside the active span whose character is not URL-safe, the fields
  are stored as \<open>p + 1\<close> and \<open>p\<close>. On the document \<open>a  b\<close>, a move from the
  sentinel to offset 1, the first space, stores the pair \<open>(2, 1)\<close>, as the claim
  says. Offset 2, the second space, is valid, outside \<open>[2, 1)\<close> and not URL-safe;
  the claim asks for the fields 3 and 2, but the test of line 114 fails and the
  fields stay 2 and 1. From the sentinel the same move stores 3 and 2.
\<close>

theorem mouseMove_next_separator_not_stored:
  "mouseMoveEvent 1 ed_gap_none =
     (ed_gap, [IndicatorClearRange (- 1) (- 1), CharAt 1, CharAt 1, TextRange 2 1,
               RegexMatch [], BaseMouseMoveEvent]) \<and>
   0 \<le> (2::int) \<and>
   \<not> (m_indicatorStart ed_gap \<le> 2 \<and> 2 < m_indicatorStop ed_gap) \<and>
   \<not> isCharUrlValid (charAt (contents ed_gap) 2) \<and>
   mouseMoveEvent 2 ed_gap = (ed_gap, [BaseMouseMoveEvent]) \<and>
   m_indicatorStart (fst (mouseMoveEvent 2 ed_gap)) = 2 \<and>
   m_indicatorStop (fst (mouseMoveEvent 2 ed_gap)) = 1 \<and>
   m_indicatorStart (fst (mouseMoveEvent 2 ed_gap)) \<noteq> 2 + 1 \<and>
   m_indicatorStart (fst (mouseMoveEvent 2 ed_gap_none)) = 3 \<and>
   m_indicatorStop (fst (mouseMoveEvent 2 ed_gap_none)) = 2"
proof -
  have c: "contents ed_gap_none = ''a  b''" "contents ed_gap = ''a  b''"
    by (simp_all add: ed_gap_none_def ed_gap_def)
  have sep: "\<not> isCharUrlValid (charAt ''a  b'' 1)" "\<not> isCharUrlValid (charAt ''a  b'' 2)"
    by (simp_all add: charAt_def isCharUrlValid_def url_safe_chars_def)
  have g1: "1 > m_indicatorStart ed_gap_none \<or> 1 < m_indicatorStop ed_gap_none"
    and g2: "2 > m_indicatorStart ed_gap_none \<or> 2 < m_indicatorStop ed_gap_none"
    by (simp_all add: ed_gap_none_def)
  note w1 = word_on_separator [OF sep(1)] and w2 = word_on_separator [OF sep(2)]
  have "url_search (textRange (contents ed_gap_none) (wordStart (contents ed_gap_none) 1)
                              (wordEnd (contents ed_gap_none) 1)) = None"
    by (simp add: c w1 textRange_def url_search_empty)
  from mouseMoveEvent_no_match [OF _ g1 this]
  have 1: "mouseMoveEvent 1 ed_gap_none =
     (ed_gap, [IndicatorClearRange (- 1) (- 1), CharAt 1, CharAt 1, TextRange 2 1,
               RegexMatch [], BaseMouseMoveEvent])"
    by (simp add: c w1)
       (simp add: ed_gap_none_def ed_gap_def reset_indicator_def indicatorClearRange_def)
  have "\<not> (2 > m_indicatorStart ed_gap \<or> 2 < m_indicatorStop ed_gap)"
    by (simp add: ed_gap_def)
  from mouseMoveEvent_skip [OF this]
  have 2: "mouseMoveEvent 2 ed_gap = (ed_gap, [BaseMouseMoveEvent])" .
  have "url_search (textRange (contents ed_gap_none) (wordStart (contents ed_gap_none) 2)
                              (wordEnd (contents ed_gap_none) 2)) = None"
    by (simp add: c w2 textRange_def url_search_empty)
  from mouseMoveEvent_no_match [OF _ g2 this]
  have 3: "m_indicatorStart (fst (mouseMoveEvent 2 ed_gap_none)) = 3"
    "m_indicatorStop (fst (mouseMoveEvent 2 ed_gap_none)) = 2"
    by (simp_all add: c w2)
  have 4: "m_indicatorStart ed_gap = 2" "m_indicatorStop ed_gap = 1"
    by (simp_all add: ed_gap_def)
  from 1 2 3 4 sep(2) c show ?thesis by simp
qed

subsection \<open>Clicks\<close>

lemma notify_eq:
  "notify ed pscn =
     (if code pscn = SCN_INDICATORCLICK \<and> modifiers pscn = SCMOD_CTRL
      then [OpenUrlInExternalBrowser
              (textRange (contents ed) (m_indicatorStart ed) (m_indicatorStop ed))]
      else [])"
  by (simp add: notify_def)

text \<open>
  Claim C4, as stated, fails: with Ctrl and Shift both held, the designated
  modifier key is held and the click is on the indicator, but the handler
  compares the whole modifier state with \<open>SCMOD_CTRL\<close> and opens nothing.
\<close>

theorem ctrl_shift_click_opens_nothing:
  "ctrl_held (SCMOD_CTRL OR SCMOD_SHIFT) \<and> 10 \<in> surface ed_url \<and>
   click ed_url 10 (SCMOD_CTRL OR SCMOD_SHIFT) = []"
  by (simp add: ctrl_held_def SCMOD_CTRL_def SCMOD_SHIFT_def ed_url_def click_def
        click_notifications_def notify_def)

text \<open>
  Claim C4, amended. A click on an offset that carries the indicator, with Ctrl
  and no other modifier key held, makes exactly one browser-open call, whose
  argument is the text of \<open>[activeStart, activeStop)\<close>; that range is the
  highlighted span in every state that satisfies \<open>hover_inv\<close>. Any other click
  (another modifier state, or on an offset without indicator) makes no call.
\<close>

theorem click_opens_span:
  "click ed pos mods =
     (if pos \<in> surface ed \<and> mods = SCMOD_CTRL
      then [OpenUrlInExternalBrowser
              (textRange (contents ed) (m_indicatorStart ed) (m_indicatorStop ed))]
      else []) \<and>
   (hover_inv ed \<and> pos \<in> surface ed \<longrightarrow>
      surface ed = {m_indicatorStart ed ..< m_indicatorStop ed})"
  by (auto simp: click_def click_notifications_def notify_def hover_inv_def split: if_splits)

text \<open>
  C4 amended, on the spec's example with the URL highlighted: a Ctrl click on the
  URL, a click without modifier, a Ctrl click on the plain word, and a Ctrl
  click when nothing is highlighted.
\<close>

theorem click_opens_span_witness:
  "click ed_url 10 SCMOD_CTRL = [OpenUrlInExternalBrowser ''https://example.com/path''] \<and>
   click ed_url 10 0 = [] \<and>
   click ed_url 1 SCMOD_CTRL = [] \<and>
   click ed_none 10 SCMOD_CTRL = [] \<and>
   surface ed_url = {m_indicatorStart ed_url ..< m_indicatorStop ed_url}"
proof -
  have inv: "hover_inv ed_url" by (simp add: hover_inv_def ed_url_def)
  have m: "10 \<in> surface ed_url" "1 \<notin> surface ed_url" "10 \<notin> surface ed_none"
    by (simp_all add: ed_url_def ed_none_def)
  have t: "textRange (contents ed_url) (m_indicatorStart ed_url) (m_indicatorStop ed_url)
             = ''https://example.com/path''"
    by (simp add: ed_url_def example_word_url)
  from click_opens_span [of ed_url 10 SCMOD_CTRL] click_opens_span [of ed_url 10 0]
    click_opens_span [of ed_url 1 SCMOD_CTRL] click_opens_span [of ed_none 10 SCMOD_CTRL]
    inv m t
  show ?thesis by (simp add: SCMOD_CTRL_def)
qed

text \<open>
  Claim C10. The handler makes a browser-open call only for an indicator click
  whose modifier state equals \<open>SCMOD_CTRL\<close>: any other modifier state makes no
  call, in particular Ctrl together with any further modifier, and no modifier
  at all.
\<close>

theorem open_only_on_exact_ctrl:
  "(notify ed pscn \<noteq> [] \<longrightarrow>
      code pscn = SCN_INDICATORCLICK \<and> modifiers pscn = SCMOD_CTRL) \<and>
   (modifiers pscn \<noteq> SCMOD_CTRL \<longrightarrow> notify ed pscn = []) \<and>
   (extra \<noteq> 0 \<and> extra AND SCMOD_CTRL = 0 \<longrightarrow>
      notify ed (pscn\<lparr>modifiers := SCMOD_CTRL OR extra\<rparr>) = []) \<and>
   notify ed (pscn\<lparr>modifiers := 0\<rparr>) = []"
proof -
  have "SCMOD_CTRL OR extra \<noteq> SCMOD_CTRL" if "extra \<noteq> 0" "extra AND SCMOD_CTRL = 0"
  proof
    assume eq: "SCMOD_CTRL OR extra = SCMOD_CTRL"
    have "extra AND (SCMOD_CTRL OR extra) = extra"
      using that(2) by (simp add: bit.conj_disj_distrib)
    moreover have "extra AND (SCMOD_CTRL OR extra) = 0"
      using that(2) by (simp add: eq)
    ultimately show False using that(1) by simp
  qed
  then show ?thesis by (auto simp: notify_def SCMOD_CTRL_def)
qed

text \<open>
  C10 for Ctrl+Shift, Ctrl+Alt and no modifier.
\<close>

theorem open_only_on_exact_ctrl_witness:
  "notify ed_url \<lparr>code = SCN_INDICATORCLICK, modifiers = SCMOD_CTRL OR SCMOD_SHIFT\<rparr> = [] \<and>
   notify ed_url \<lparr>code = SCN_INDICATORCLICK, modifiers = SCMOD_CTRL OR SCMOD_ALT\<rparr> = [] \<and>
   notify ed_url \<lparr>code = SCN_INDICATORCLICK, modifiers = 0\<rparr> = []"
proof -
  have s: "SCMOD_SHIFT \<noteq> 0 \<and> SCMOD_SHIFT AND SCMOD_CTRL = 0"
    and a: "SCMOD_ALT \<noteq> 0 \<and> SCMOD_ALT AND SCMOD_CTRL = 0"
    by (simp_all add: SCMOD_SHIFT_def SCMOD_ALT_def SCMOD_CTRL_def)
  from open_only_on_exact_ctrl
         [of ed_url "\<lparr>code = SCN_INDICATORCLICK, modifiers = SCMOD_CTRL\<rparr>" SCMOD_SHIFT]
       open_only_on_exact_ctrl
         [of ed_url "\<lparr>code = SCN_INDICATORCLICK, modifiers = SCMOD_CTRL\<rparr>" SCMOD_ALT]
       s a
  show ?thesis by simp
qed

section \<open>Properties of the find-results model\<close>

lemma documents_addResults:
  "map document (addResults d rs root)
     = (if d \<in> set (map document root) then map document root
        else map document root @ [d])"
  by (simp add: addResults_def Let_def comp_def if_distrib [of document] cong: if_cong)

lemma distinct_addResults:
  "distinct (map document root) \<Longrightarrow> distinct (map document (addResults d rs root))"
  by (simp add: documents_addResults)

lemma leaves_of_map_upd:
  "leaves_of (map (\<lambda>g. if document g = d then g\<lparr>leaves := leaves g @ new\<rparr> else g) root) d'
     = (if d' = d then concat (map (\<lambda>g. leaves g @ new) (filter (\<lambda>g. document g = d) root))
        else leaves_of root d')"
  by (induction root) (auto simp: leaves_of_def)

lemma unique_group:
  assumes "distinct (map document root)" and "g \<in> set root"
  shows "filter (\<lambda>h. document h = document g) root = [g]"
  using assms
proof (induction root)
  case Nil
  then show ?case by simp
next
  case (Cons h root)
  show ?case
  proof (cases "h = g")
    case True
    with Cons.prems have "document g \<notin> document ` set root" by simp
    then have "\<forall>k \<in> set root. document k \<noteq> document g" by (metis imageI)
    then have "filter (\<lambda>h. document h = document g) root = []"
      by (simp add: filter_empty_conv)
    with True show ?thesis by simp
  next
    case False
    with Cons.prems have g: "g \<in> set root" and "document h \<noteq> document g" by auto
    with Cons.IH Cons.prems show ?thesis by simp
  qed
qed

lemma leaves_of_group:
  assumes "distinct (map document root)" and "g \<in> set root"
  shows "leaves_of root (document g) = leaves g"
  by (simp add: leaves_of_def unique_group [OF assms])

lemma leaves_of_absent:
  "d \<notin> set (map document root) \<Longrightarrow> leaves_of root d = []"
  by (auto simp: leaves_of_def filter_empty_conv)

lemma leaves_of_addResults:
  assumes "distinct (map document root)"
  shows "leaves_of (addResults d rs root) d'
     = (if d' = d then leaves_of root d @ map (\<lambda>(s, e). (d, s, e)) rs
        else leaves_of root d')"
proof (cases "d \<in> set (map document root)")
  case True
  then obtain g where g: "g \<in> set root" "document g = d" by auto
  from unique_group [OF assms g(1)] g(2)
  have f: "filter (\<lambda>h. document h = d) root = [g]" by simp
  have "addResults d rs root
          = map (\<lambda>g. if document g = d
                     then g\<lparr>leaves := leaves g @ map (\<lambda>(s, e). (d, s, e)) rs\<rparr> else g) root"
    using True by (simp add: addResults_def)
  then show ?thesis
    by (simp add: leaves_of_map_upd f) (simp add: leaves_of_def f)
next
  case False
  then have f: "filter (\<lambda>h. document h = d) root = []"
    by (auto simp: filter_empty_conv)
  have "addResults d rs root
          = map (\<lambda>g. if document g = d
                     then g\<lparr>leaves := leaves g @ map (\<lambda>(s, e). (d, s, e)) rs\<rparr> else g)
                (root @ [\<lparr>document = d, leaves = []\<rparr>])"
    using False by (simp add: addResults_def)
  then show ?thesis
    by (simp only: leaves_of_map_upd) (simp add: leaves_of_def f)
qed

lemma add_all_snoc:
  "add_all (calls @ [(d, rs)]) root = addResults d rs (add_all calls root)"
  by (simp add: add_all_def)

lemma add_all_documents:
  "distinct (map document (add_all calls root)) \<and>
   set (map document (add_all calls root)) = fst ` set calls \<and>
   (\<forall>d. leaves_of (add_all calls root) d = passed_leaves calls d)"
proof (induction calls rule: rev_induct)
  case Nil
  show ?case by (simp add: add_all_def clear_def leaves_of_def passed_leaves_def)
next
  case (snoc c calls)
  obtain d rs where c: "c = (d, rs)" by (cases c)
  from snoc have dist: "distinct (map document (add_all calls root))"
    and docs: "set (map document (add_all calls root)) = fst ` set calls"
    and lv: "\<And>d. leaves_of (add_all calls root) d = passed_leaves calls d"
    by simp_all
  have 1: "distinct (map document (add_all (calls @ [c]) root))"
    unfolding c add_all_snoc by (rule distinct_addResults [OF dist])
  have 2: "set (map document (add_all (calls @ [c]) root)) = fst ` set (calls @ [c])"
    unfolding c add_all_snoc using docs by (auto simp: documents_addResults)
  have 3: "leaves_of (add_all (calls @ [c]) root) d' = passed_leaves (calls @ [c]) d'" for d'
    unfolding c add_all_snoc leaves_of_addResults [OF dist]
    by (simp add: lv passed_leaves_def)
  from 1 2 3 show ?case by blast
qed

text \<open>
  Claim C7. After any sequence of \<open>addResults\<close> calls on a cleared model, the
  number of groups under the root is the number of distinct documents passed, no
  two groups are for the same document, the documents of the groups are the
  documents passed, and the leaves of each group are the matches of all calls
  for its document, in call order.
\<close>

theorem addResults_one_group_per_document:
  "length (add_all calls root) = card (fst ` set calls) \<and>
   distinct (map document (add_all calls root)) \<and>
   set (map document (add_all calls root)) = fst ` set calls \<and>
   (\<forall>g \<in> set (add_all calls root). leaves g = passed_leaves calls (document g))"
proof -
  note a = add_all_documents [of calls root]
  from a have dist: "distinct (map document (add_all calls root))" by simp
  have "length (add_all calls root) = length (map document (add_all calls root))" by simp
  also have "\<dots> = card (set (map document (add_all calls root)))"
    using dist by (rule distinct_card [symmetric])
  also have "\<dots> = card (fst ` set calls)" using a by simp
  finally have len: "length (add_all calls root) = card (fst ` set calls)" .
  have "\<forall>g \<in> set (add_all calls root). leaves g = passed_leaves calls (document g)"
  proof
    fix g assume "g \<in> set (add_all calls root)"
    from leaves_of_group [OF dist this] a show "leaves g = passed_leaves calls (document g)"
      by simp
  qed
  with len a show ?thesis by blast
qed

text \<open>
  C7 on the spec's example, with a call for a second document in between.
\<close>

theorem addResults_one_group_per_document_witness:
  "add_all [(''docA'', [(1, 2)]), (''docB'', []), (''docA'', [(3, 4)])] []
     = [\<lparr>document = ''docA'', leaves = [(''docA'', 1, 2), (''docA'', 3, 4)]\<rparr>,
        \<lparr>document = ''docB'', leaves = []\<rparr>] \<and>
   length (add_all [(''docA'', [(1, 2)]), (''docB'', []), (''docA'', [(3, 4)])] [])
     = card (fst ` set [(''docA'', [(1::int, 2::int)]), (''docB'', []), (''docA'', [(3, 4)])])"
proof -
  have "add_all [(''docA'', [(1, 2)]), (''docB'', []), (''docA'', [(3, 4)])] []
     = [\<lparr>document = ''docA'', leaves = [(''docA'', 1, 2), (''docA'', 3, 4)]\<rparr>,
        \<lparr>document = ''docB'', leaves = []\<rparr>]"
    by (simp add: add_all_def clear_def addResults_def)
  with addResults_one_group_per_document
         [of "[(''docA'', [(1, 2)]), (''docB'', []), (''docA'', [(3, 4)])]" "[]"]
  show ?thesis by simp
qed

text \<open>
  Claim C8. For every invalid or null token \<open>itemForIndex\<close> returns the root,
  which is a node of every tree.
\<close>

theorem itemForIndex_invalid_is_root:
  assumes "\<not> isValid idx"
  shows "itemForIndex idx = RootItem \<and> item_in_tree m_rootItem (itemForIndex idx)"
  using assms by (simp add: itemForIndex_def)

text \<open>
  C8 for the null token and for a token with a negative column.
\<close>

theorem itemForIndex_invalid_is_root_witness:
  "\<not> isValid \<lparr>row = - 1, column = - 1, internalPointer = None\<rparr> \<and>
   itemForIndex \<lparr>row = - 1, column = - 1, internalPointer = None\<rparr> = RootItem \<and>
   \<not> isValid \<lparr>row = 0, column = - 1, internalPointer = Some (GroupItem 0)\<rparr> \<and>
   itemForIndex \<lparr>row = 0, column = - 1, internalPointer = Some (GroupItem 0)\<rparr> = RootItem"
proof -
  have 1: "\<not> isValid \<lparr>row = - 1, column = - 1, internalPointer = None\<rparr>"
    and 2: "\<not> isValid \<lparr>row = 0, column = - 1, internalPointer = Some (GroupItem 0)\<rparr>"
    by (simp_all add: isValid_def)
  from itemForIndex_invalid_is_root [OF 1, where m_rootItem = "[] :: string FindResultsModel"]
    itemForIndex_invalid_is_root [OF 2, where m_rootItem = "[] :: string FindResultsModel"] 1 2
  show ?thesis by blast
qed

end
